theory Spec2Isabelle
  imports Main "HOL-Library.List_Lexorder"
begin

section \<open>Python values used by organize.py\<close>

text \<open>
  A Python \<open>str\<close> is a sequence of Unicode code points.  The 8-bit \<open>char\<close> of HOL
  cannot hold the line separators U+2028 and U+2029 that \<open>str.splitlines\<close> knows, nor
  the spinner glyphs, so a character is its code point and a string a list of them.
\<close>

type_synonym pychar = nat
type_synonym pystr = "pychar list"

definition py_str :: "string \<Rightarrow> pystr" where
  "py_str s = map of_char s"

datatype error = IndexError | ZeroDivisionError | ValueError

text \<open>\<open>xs[i]\<close> on a Python list: a negative index counts from the end, an index out of
  range raises \<open>IndexError\<close>.\<close>

definition py_getitem :: "'a list \<Rightarrow> int \<Rightarrow> error + 'a" where
  "py_getitem xs i =
     (if 0 \<le> i \<and> i < int (length xs) then Inr (xs ! nat i)
      else if i < 0 \<and> - int (length xs) \<le> i then Inr (xs ! nat (int (length xs) + i))
      else Inl IndexError)"

subsection \<open>\<open>str.splitlines\<close> and \<open>str.split\<close>\<close>

definition LF :: pychar where "LF = 10"
definition CR :: pychar where "CR = 13"
definition slash :: pychar where "slash = 47"

text \<open>The line boundaries of \<open>str.splitlines\<close>: \<open>\n\<close>, \<open>\v\<close>, \<open>\f\<close>, \<open>\r\<close>, \<open>\x1c\<close>,
  \<open>\x1d\<close>, \<open>\x1e\<close>, \<open>\x85\<close>, U+2028 and U+2029.\<close>

definition linebreak :: "pychar \<Rightarrow> bool" where
  "linebreak c = (c \<in> {10, 11, 12, 13, 28, 29, 30, 133, 8232, 8233})"

text \<open>
  \<open>splitlines_from cur s\<close> scans \<open>s\<close> with \<open>cur\<close> the part of the current line read so
  far.  A boundary ends the line (\<open>\r\n\<close> counts as one boundary); the end of the text
  ends a line only when characters are pending, so a final boundary opens no empty last
  line and the empty text has no line at all.
\<close>

fun splitlines_from :: "pystr \<Rightarrow> pystr \<Rightarrow> pystr list" where
  "splitlines_from cur [] = (if cur = [] then [] else [cur])"
| "splitlines_from cur (c # cs) =
     (if linebreak c then
        (case cs of
           [] \<Rightarrow> [cur]
         | d # ds \<Rightarrow> if c = CR \<and> d = LF then cur # splitlines_from [] ds
                     else cur # splitlines_from [] (d # ds))
      else splitlines_from (cur @ [c]) cs)"

definition splitlines :: "pystr \<Rightarrow> pystr list" where
  "splitlines s = splitlines_from [] s"

text \<open>\<open>s.split(sep)\<close> for a separator of one character: the fields between the
  separators, always at least one field.\<close>

fun split_from :: "pychar \<Rightarrow> pystr \<Rightarrow> pystr \<Rightarrow> pystr list" where
  "split_from sep cur [] = [cur]"
| "split_from sep cur (c # cs) =
     (if c = sep then cur # split_from sep [] cs else split_from sep (cur @ [c]) cs)"

definition split :: "pystr \<Rightarrow> pychar \<Rightarrow> pystr list" where
  "split s sep = split_from sep [] s"

section \<open>The document and the label of a page\<close>

text \<open>
  Of a source document the program reads the number of pages and the text of each page.
  A document is the list of its page texts and a page handle is the zero-based index of
  the page, so that two pages with the same text stay apart.  \<open>getPage\<close> raises
  \<open>IndexError\<close> past the last page.
\<close>

type_synonym pdf = "pystr list"
type_synonym page = nat

definition getNumPages :: "pdf \<Rightarrow> nat" where
  "getNumPages pdf = length pdf"

definition getPage :: "pdf \<Rightarrow> nat \<Rightarrow> error + page" where
  "getPage pdf page_num = (if page_num < length pdf then Inr page_num else Inl IndexError)"

definition extractText :: "pdf \<Rightarrow> page \<Rightarrow> pystr" where
  "extractText pdf page = pdf ! page"

text \<open>\<open>text.splitlines()[-1].split("/")[0]\<close> on the text of a page.\<close>

definition label_of_text :: "pystr \<Rightarrow> error + pystr" where
  "label_of_text text =
     (case py_getitem (splitlines text) (- 1) of
        Inl e \<Rightarrow> Inl e
      | Inr line \<Rightarrow> py_getitem (split line slash) 0)"

definition get_real_page_num :: "pdf \<Rightarrow> nat \<Rightarrow> error + pystr" where
  "get_real_page_num pdf page_num =
     (case getPage pdf page_num of
        Inl e \<Rightarrow> Inl e
      | Inr page \<Rightarrow> label_of_text (extractText pdf page))"

section \<open>The page table and the file organizer\<close>

text \<open>
  \<open>pages[page_num] = i\<close> on an \<open>OrderedDict\<close>, kept as the list of its items in iteration
  order: a key already present keeps its place and takes the new value, a new key goes
  to the end.
\<close>

fun od_setitem :: "('k \<times> 'v) list \<Rightarrow> 'k \<Rightarrow> 'v \<Rightarrow> ('k \<times> 'v) list" where
  "od_setitem [] k v = [(k, v)]"
| "od_setitem ((k', v') # items) k v =
     (if k' = k then (k', v) # items else (k', v') # od_setitem items k v)"

text \<open>The first loop of \<open>organize_file\<close> over \<open>range(num_pages)\<close>; an exception of
  \<open>get_real_page_num\<close> leaves the loop and the function.\<close>

fun fill_pages :: "pdf \<Rightarrow> nat list \<Rightarrow> (pystr \<times> page) list \<Rightarrow> error + (pystr \<times> page) list" where
  "fill_pages pdf [] pages = Inr pages"
| "fill_pages pdf (i # rest) pages =
     (case get_real_page_num pdf i of
        Inl e \<Rightarrow> Inl e
      | Inr page_num \<Rightarrow> fill_pages pdf rest (od_setitem pages page_num i))"

text \<open>The second loop, over \<open>pages.items()\<close>: the writer is the list of the pages added
  to it so far.\<close>

fun add_pages :: "pdf \<Rightarrow> (pystr \<times> page) list \<Rightarrow> page list \<Rightarrow> error + page list" where
  "add_pages pdf [] writer = Inr writer"
| "add_pages pdf ((page_num, i) # items) writer =
     (case getPage pdf i of
        Inl e \<Rightarrow> Inl e
      | Inr page \<Rightarrow> add_pages pdf items (writer @ [page]))"

text \<open>
  \<open>organize_file\<close> on an opened document.  The first component is the content of the
  output file, \<open>None\<close> when the function raised before writing it; the second is the
  exception raised, or the two page counts of the final progress line.  The percentage
  of that line is \<open>(num_pages - new_num_pages) / num_pages * 100\<close>, a true division
  that raises \<open>ZeroDivisionError\<close> when \<open>num_pages\<close> is 0; its floating-point value is
  not part of the model.  The calls of \<open>logger.log\<close> are modelled apart, below.
\<close>

definition organize_file :: "pdf \<Rightarrow> page list option \<times> (error + nat \<times> nat)" where
  "organize_file pdf =
     (let num_pages = getNumPages pdf in
      case fill_pages pdf [0..<num_pages] [] of
        Inl e \<Rightarrow> (None, Inl e)
      | Inr pages \<Rightarrow>
          (case add_pages pdf pages [] of
             Inl e \<Rightarrow> (None, Inl e)
           | Inr writer \<Rightarrow>
               (let new_num_pages = length writer in
                (Some writer,
                 if num_pages = 0 then Inl ZeroDivisionError
                 else Inr (num_pages, new_num_pages)))))"

text \<open>
  The reorder operation is the same two loops on a sequence of (label, page) pairs whose
  labels are already extracted: the page table after the first loop, and the pages in
  its iteration order.
\<close>

definition page_table :: "('k \<times> 'v) list \<Rightarrow> ('k \<times> 'v) list" where
  "page_table ps = foldl (\<lambda>pages (page_num, i). od_setitem pages page_num i) [] ps"

definition reorder :: "('k \<times> 'v) list \<Rightarrow> 'v list" where
  "reorder ps = map snd (page_table ps)"

text \<open>
  Two notions to state what the reorder operation computes: the distinct labels of a
  sequence in the order of their first occurrence, and the page of the last pair that
  carries a label.
\<close>

fun first_seen :: "'k list \<Rightarrow> 'k list" where
  "first_seen [] = []"
| "first_seen (x # xs) = x # filter (\<lambda>y. y \<noteq> x) (first_seen xs)"

definition last_page :: "('k \<times> 'v) list \<Rightarrow> 'k \<Rightarrow> 'v" where
  "last_page ps l = snd (last (filter (\<lambda>p. fst p = l) ps))"

text \<open>The pages of a document paired with their labels, for a document whose pages all
  have text: the input that the reorder operation receives from \<open>organize_file\<close>.\<close>

definition labelled :: "pdf \<Rightarrow> (pystr \<times> page) list" where
  "labelled pdf =
     map (\<lambda>i. (takeWhile (\<lambda>c. c \<noteq> slash) (last (splitlines (pdf ! i))), i)) [0..<length pdf]"

section \<open>The batch coordinator\<close>

text \<open>
  An entry of the source directory: its name, whether it is a regular file, and the
  document it holds.  \<open>main\<close> is the block under \<open>if __name__ == "__main__"\<close> after
  \<open>parse_args\<close>: it keeps the regular files whose name ends with \<open>.pdf\<close>, builds the
  logger and the pool for their number, and maps \<open>organize_file\<close> over the sorted names.
\<close>

record entry =
  name :: pystr
  isfile :: bool
  content :: pdf

definition endswith :: "pystr \<Rightarrow> pystr \<Rightarrow> bool" where
  "endswith s suffix =
     (length suffix \<le> length s \<and> drop (length s - length suffix) s = suffix)"

text \<open>
  \<open>multiprocessing.Pool(processes)\<close> is the constructor of the standard library: it
  raises \<open>ValueError("Number of processes must be at least 1")\<close> when \<open>processes < 1\<close>,
  and otherwise starts that many workers.
\<close>

definition Pool :: "int \<Rightarrow> error + nat" where
  "Pool processes = (if processes < 1 then Inl ValueError else Inr (nat processes))"

text \<open>
  The value of \<open>main\<close> is the exception raised before any worker runs, or what each
  worker does with its file, in the order of the sorted names.  How \<open>p.map\<close> re-raises
  the exception of a worker in the parent process is not part of the model.
\<close>

definition main :: "entry list \<Rightarrow> error + (pystr \<times> page list option \<times> (error + nat \<times> nat)) list" where
  "main directory =
     (let files = filter (\<lambda>f. isfile f \<and> endswith (name f) (py_str ''.pdf'')) directory;
          files_num = length files
      in case Pool (int files_num) of
           Inl e \<Rightarrow> Inl e
         | Inr p \<Rightarrow> Inr (map (\<lambda>f. (name f, organize_file (content f))) (sort_key name files)))"

section \<open>The progress reporter\<close>

subsection \<open>What the logger prints\<close>

text \<open>\<open>str(i)\<close> of a Python integer, as an f-string formats it: decimal digits, with a
  minus sign for a negative number.\<close>

fun digits :: "nat \<Rightarrow> pystr" where
  "digits n = (if n < 10 then [48 + n] else digits (n div 10) @ [48 + n mod 10])"

declare digits.simps [simp del]

definition str_int :: "int \<Rightarrow> pystr" where
  "str_int i = (if i < 0 then 45 # digits (nat (- i)) else digits (nat i))"

definition ESC :: pychar where "ESC = 27"

text \<open>
  The characters printed by \<open>Logger.__init__\<close>, \<open>Logger.log\<close> and \<open>Logger.__del__\<close>, in
  the order of the \<open>print\<close> calls.  \<open>"\033[K\n" * num\<close> is the empty string when \<open>num\<close> is
  not positive.
\<close>

definition Logger_init :: "int \<Rightarrow> pystr" where
  "Logger_init num =
     concat (replicate (nat num) ([ESC] @ py_str ''[K'' @ [LF])) @ [ESC] @ py_str ''[?25l''"

definition Logger_log :: "int \<Rightarrow> int \<Rightarrow> pystr \<Rightarrow> pystr" where
  "Logger_log num line msg =
     (let line = num - line in
      [ESC] @ py_str ''['' @ str_int line @ py_str ''F'' @
      [ESC] @ py_str ''[2K'' @
      msg @
      [ESC] @ py_str ''['' @ str_int line @ py_str ''E'')"

definition Logger_del :: pystr where
  "Logger_del = [ESC] @ py_str ''[?25h''"

subsection \<open>The terminal that reads it\<close>

text \<open>
  What the program prints has an effect only through the terminal, which is not code of
  the program.  The terminal here is the part of an ECMA-48 terminal that the logger
  drives: a screen of lines (top line first) of \<open>width\<close> cells, a cursor, and the parser
  of control sequences.  A line is the list of its characters up to the last one
  written; a character takes one cell.  Line feed moves to the start of the next line
  (the terminal line discipline adds the carriage return) and scrolls at the bottom
  line.  \<open>CSI n F\<close> and \<open>CSI n E\<close> move the cursor \<open>n\<close> lines up or down, to the first
  column, and stop at the top and bottom lines; \<open>CSI K\<close> erases from the cursor to the
  end of the line and \<open>CSI 2 K\<close> the whole line; \<open>CSI ? 25 l\<close> and \<open>CSI ? 25 h\<close> hide
  and show the cursor.  Any other control character or sequence is outside the model:
  the terminal answers \<open>None\<close>.
\<close>

datatype parser = Ground | Escape | Csi bool nat

record terminal =
  width :: nat
  rows :: "pystr list"
  crow :: nat
  ccol :: nat
  shown :: bool
  parser :: parser

definition graphic :: "pychar \<Rightarrow> bool" where
  "graphic c = ((32 \<le> c \<and> c < 127) \<or> 160 \<le> c)"

definition is_digit :: "pychar \<Rightarrow> bool" where
  "is_digit c = (48 \<le> c \<and> c \<le> 57)"

definition put_at :: "pystr \<Rightarrow> nat \<Rightarrow> pychar \<Rightarrow> pystr" where
  "put_at line col c =
     (if col < length line then line[col := c]
      else line @ replicate (col - length line) 32 @ [c])"

definition newline :: "terminal \<Rightarrow> terminal" where
  "newline t =
     (if crow t + 1 < length (rows t) then t\<lparr>crow := crow t + 1, ccol := 0\<rparr>
      else t\<lparr>rows := tl (rows t) @ [[]], ccol := 0\<rparr>)"

definition put_char :: "pychar \<Rightarrow> terminal \<Rightarrow> terminal" where
  "put_char c t =
     (let t' = (if width t \<le> ccol t then newline t else t) in
      t'\<lparr>rows := (rows t')[crow t' := put_at (rows t' ! crow t') (ccol t') c],
         ccol := ccol t' + 1\<rparr>)"

definition csi_dispatch :: "bool \<Rightarrow> nat \<Rightarrow> pychar \<Rightarrow> terminal \<Rightarrow> terminal option" where
  "csi_dispatch private n c t =
     (if \<not> private \<and> c = 70 then
        Some (t\<lparr>crow := (if max 1 n \<le> crow t then crow t - max 1 n else 0), ccol := 0\<rparr>)
      else if \<not> private \<and> c = 69 then
        Some (t\<lparr>crow := min (length (rows t) - 1) (crow t + max 1 n), ccol := 0\<rparr>)
      else if \<not> private \<and> c = 75 \<and> n = 0 then
        Some (t\<lparr>rows := (rows t)[crow t := take (ccol t) (rows t ! crow t)]\<rparr>)
      else if \<not> private \<and> c = 75 \<and> n = 2 then
        Some (t\<lparr>rows := (rows t)[crow t := []]\<rparr>)
      else if private \<and> c = 108 \<and> n = 25 then Some (t\<lparr>shown := False\<rparr>)
      else if private \<and> c = 104 \<and> n = 25 then Some (t\<lparr>shown := True\<rparr>)
      else None)"

definition step :: "terminal \<Rightarrow> pychar \<Rightarrow> terminal option" where
  "step t c =
     (case parser t of
        Ground \<Rightarrow>
          if c = ESC then Some (t\<lparr>parser := Escape\<rparr>)
          else if c = LF then Some (newline t)
          else if graphic c then Some (put_char c t)
          else None
      | Escape \<Rightarrow> if c = 91 then Some (t\<lparr>parser := Csi False 0\<rparr>) else None
      | Csi private n \<Rightarrow>
          if c = 63 then
            (if private \<or> n \<noteq> 0 then None else Some (t\<lparr>parser := Csi True 0\<rparr>))
          else if is_digit c then Some (t\<lparr>parser := Csi private (10 * n + (c - 48))\<rparr>)
          else csi_dispatch private n c (t\<lparr>parser := Ground\<rparr>))"

fun feed :: "terminal \<Rightarrow> pystr \<Rightarrow> terminal option" where
  "feed t [] = Some t"
| "feed t (c # cs) = (case step t c of None \<Rightarrow> None | Some t' \<Rightarrow> feed t' cs)"

section \<open>Properties of the page table\<close>

lemma od_setitem_keys:
  "map fst (od_setitem items k v) =
     (if k \<in> set (map fst items) then map fst items else map fst items @ [k])"
  by (induction items k v rule: od_setitem.induct) auto

lemma od_setitem_values:
  "set (map snd (od_setitem items k v)) \<subseteq> insert v (set (map snd items))"
  by (induction items k v rule: od_setitem.induct) auto

lemma od_setitem_present:
  assumes "distinct ks" and "k \<in> set ks"
  shows "od_setitem (map (\<lambda>l. (l, f l)) ks) k v = map (\<lambda>l. (l, (f(k := v)) l)) ks"
  using assms
proof (induction ks)
  case Nil
  then show ?case by simp
next
  case (Cons a ks)
  show ?case
  proof (cases "a = k")
    case True
    with Cons.prems have "k \<notin> set ks" by simp
    then have "map (\<lambda>l. (l, (f(k := v)) l)) ks = map (\<lambda>l. (l, f l)) ks"
      by (intro map_cong) auto
    with True show ?thesis by simp
  next
    case False
    with Cons show ?thesis by simp
  qed
qed

lemma od_setitem_absent:
  assumes "k \<notin> set ks"
  shows "od_setitem (map (\<lambda>l. (l, f l)) ks) k v = map (\<lambda>l. (l, (f(k := v)) l)) (ks @ [k])"
  using assms by (induction ks) auto

lemma set_first_seen: "set (first_seen xs) = set xs"
  by (induction xs) auto

lemma distinct_first_seen: "distinct (first_seen xs)"
  by (induction xs) (auto simp: set_first_seen)

lemma first_seen_append:
  "first_seen (xs @ ys) = first_seen xs @ filter (\<lambda>y. y \<notin> set xs) (first_seen ys)"
proof (induction xs)
  case Nil
  then show ?case by simp
next
  case (Cons a xs)
  have "filter (\<lambda>y. y \<noteq> a) (first_seen xs) @
          filter (\<lambda>y. y \<noteq> a) (filter (\<lambda>y. y \<notin> set xs) (first_seen ys)) =
        filter (\<lambda>y. y \<noteq> a) (first_seen xs) @
          filter (\<lambda>y. y \<notin> set (a # xs)) (first_seen ys)"
    by (auto intro: filter_cong)
  with Cons show ?case by simp
qed

lemma first_seen_snoc:
  "first_seen (xs @ [x]) = (if x \<in> set xs then first_seen xs else first_seen xs @ [x])"
  by (simp add: first_seen_append)

lemma last_page_snoc:
  "last_page (ps @ [(k, v)]) = (last_page ps)(k := v)"
  by (auto simp: last_page_def fun_eq_iff)

lemma page_table_snoc:
  "page_table (ps @ [(k, v)]) = od_setitem (page_table ps) k v"
  by (simp add: page_table_def)

text \<open>The page table in closed form: one item for every distinct label, in the order
  of the first occurrences, with the page of the last occurrence.\<close>

lemma page_table_eq:
  "page_table ps = map (\<lambda>l. (l, last_page ps l)) (first_seen (map fst ps))"
proof (induction ps rule: rev_induct)
  case Nil
  show ?case by (simp add: page_table_def)
next
  case (snoc p ps)
  obtain k v where p: "p = (k, v)" by (cases p)
  let ?ks = "first_seen (map fst ps)"
  show ?case
  proof (cases "k \<in> set (map fst ps)")
    case True
    then have "k \<in> set ?ks" by (simp add: set_first_seen)
    then have "od_setitem (map (\<lambda>l. (l, last_page ps l)) ?ks) k v =
        map (\<lambda>l. (l, ((last_page ps)(k := v)) l)) ?ks"
      by (rule od_setitem_present [OF distinct_first_seen])
    with True snoc p show ?thesis
      by (simp add: page_table_snoc first_seen_snoc last_page_snoc)
  next
    case False
    then have "k \<notin> set ?ks" by (simp add: set_first_seen)
    then have "od_setitem (map (\<lambda>l. (l, last_page ps l)) ?ks) k v =
        map (\<lambda>l. (l, ((last_page ps)(k := v)) l)) (?ks @ [k])"
      by (rule od_setitem_absent)
    with False snoc p show ?thesis
      by (simp add: page_table_snoc first_seen_snoc last_page_snoc)
  qed
qed

lemma page_table_keys: "map fst (page_table ps) = first_seen (map fst ps)"
  by (simp add: page_table_eq comp_def)

lemma page_table_distinct: "distinct (map fst (page_table ps))"
  by (simp add: page_table_keys distinct_first_seen)

lemma page_table_length: "length (page_table ps) = card (fst ` set ps)"
proof -
  have "length (page_table ps) = length (first_seen (map fst ps))"
    by (simp add: page_table_eq)
  also have "\<dots> = card (set (first_seen (map fst ps)))"
    by (simp add: distinct_card distinct_first_seen)
  finally show ?thesis by (simp add: set_first_seen)
qed

text \<open>A table whose keys are distinct is rebuilt unchanged from its own items.\<close>

lemma foldl_od_setitem_fresh:
  assumes "distinct (map fst (acc @ items))"
  shows "foldl (\<lambda>pages (page_num, i). od_setitem pages page_num i) acc items = acc @ items"
  using assms
proof (induction items arbitrary: acc)
  case Nil
  then show ?case by simp
next
  case (Cons p items)
  obtain k v where p: "p = (k, v)" by (cases p)
  from Cons.prems p have "k \<notin> set (map fst acc)" by auto
  then have step: "od_setitem acc k v = acc @ [(k, v)]"
    by (induction acc) auto
  from Cons.prems p have "distinct (map fst ((acc @ [(k, v)]) @ items))" by simp
  then have "foldl (\<lambda>pages (page_num, i). od_setitem pages page_num i) (acc @ [(k, v)]) items
      = (acc @ [(k, v)]) @ items"
    by (rule Cons.IH)
  with step p show ?case by simp
qed

lemma page_table_fixed: "distinct (map fst items) \<Longrightarrow> page_table items = items"
  using foldl_od_setitem_fresh [of "[]" items] by (simp add: page_table_def)

text \<open>The position of a label among the labels seen first.\<close>

lemma first_seen_position:
  assumes "l \<in> set xs"
  shows "\<exists>rest. first_seen xs = first_seen (takeWhile (\<lambda>y. y \<noteq> l) xs) @ l # rest"
proof -
  let ?as = "takeWhile (\<lambda>y. y \<noteq> l) xs"
  let ?ds = "dropWhile (\<lambda>y. y \<noteq> l) xs"
  from assms have "?ds \<noteq> []"
    by (simp add: dropWhile_eq_Nil_conv)
  then obtain d bs where ds: "?ds = d # bs"
    by (cases ?ds) auto
  from \<open>?ds \<noteq> []\<close> have "\<not> hd ?ds \<noteq> l"
    by (rule hd_dropWhile)
  with ds have "d = l" by simp
  have "xs = ?as @ ?ds" by simp
  with ds \<open>d = l\<close> have xs: "xs = ?as @ l # bs" by simp
  have "l \<notin> set ?as"
    by (auto dest: set_takeWhileD)
  then have "first_seen (?as @ l # bs) =
      first_seen ?as @ l # filter (\<lambda>y. y \<notin> set ?as) (filter (\<lambda>y. y \<noteq> l) (first_seen bs))"
    by (simp add: first_seen_append)
  with xs show ?thesis by metis
qed

lemma filter_eq_distinct:
  "distinct xs \<Longrightarrow> x \<in> set xs \<Longrightarrow> filter (\<lambda>y. y = x) xs = [x]"
  by (induction xs) (auto simp: filter_empty_conv)

lemma takeWhile_labels:
  "takeWhile (\<lambda>y. y \<noteq> l) (map fst ps) = map fst (takeWhile (\<lambda>p. fst p \<noteq> l) ps)"
  by (simp add: takeWhile_map comp_def)

section \<open>The reorder operation\<close>

text \<open>
  Claim C1.  When a label occurs in the input (in particular when it occurs more than
  once), the page table holds exactly one item for it, and that item carries the page of
  the last pair with this label.  The item stands at index \<open>j\<close>, the number of distinct
  labels that occur before the first occurrence of the label, and the output has the
  page at the same index.
\<close>

theorem reorder_repeated_label:
  assumes "l \<in> fst ` set ps"
  shows "let j = card (fst ` set (takeWhile (\<lambda>p. fst p \<noteq> l) ps)) in
           filter (\<lambda>p. fst p = l) (page_table ps) = [(l, last_page ps l)] \<and>
           j < length (reorder ps) \<and>
           page_table ps ! j = (l, last_page ps l) \<and>
           reorder ps ! j = last_page ps l"
proof -
  let ?ks = "first_seen (map fst ps)"
  let ?g = "\<lambda>l. (l, last_page ps l)"
  let ?before = "first_seen (takeWhile (\<lambda>y. y \<noteq> l) (map fst ps))"
  let ?j = "card (fst ` set (takeWhile (\<lambda>p. fst p \<noteq> l) ps))"
  have table: "page_table ps = map ?g ?ks"
    by (rule page_table_eq)
  from assms have l_in: "l \<in> set (map fst ps)" by simp
  from first_seen_position [OF l_in]
  obtain rest where ks: "?ks = ?before @ l # rest" ..
  have "card (set ?before) = length ?before"
    by (rule distinct_card [OF distinct_first_seen])
  then have "length ?before = card (set (takeWhile (\<lambda>y. y \<noteq> l) (map fst ps)))"
    by (simp add: set_first_seen)
  then have j: "length ?before = ?j"
    by (simp add: takeWhile_labels)
  have "(?before @ l # rest) ! length ?before = l"
    by (rule nth_append_length)
  with ks j have nth: "?ks ! ?j = l"
    by simp
  have "length ?before < length (?before @ l # rest)"
    by simp
  with ks j have less: "?j < length ?ks"
    by simp
  have "filter (\<lambda>p. fst p = l) (map ?g ?ks) = map ?g (filter (\<lambda>y. y = l) ?ks)"
    by (simp add: filter_map comp_def)
  also have "\<dots> = [(l, last_page ps l)]"
    using l_in by (simp add: filter_eq_distinct distinct_first_seen set_first_seen)
  finally have one: "filter (\<lambda>p. fst p = l) (page_table ps) = [(l, last_page ps l)]"
    by (simp add: table)
  from less nth have item: "page_table ps ! ?j = (l, last_page ps l)"
    by (simp add: table)
  from less have len: "?j < length (reorder ps)"
    by (simp add: reorder_def table)
  from less item have "reorder ps ! ?j = last_page ps l"
    by (simp add: reorder_def table)
  with one len item show ?thesis
    by (simp add: Let_def)
qed

theorem reorder_repeated_label_witness:
  "py_str ''1/3'' \<in> fst ` set [(py_str ''1/3'', 0::nat), (py_str ''2/3'', 1),
        (py_str ''1/3'', 2), (py_str ''3/3'', 3)] \<and>
   filter (\<lambda>p. fst p = py_str ''1/3'')
     (page_table [(py_str ''1/3'', 0::nat), (py_str ''2/3'', 1),
        (py_str ''1/3'', 2), (py_str ''3/3'', 3)]) = [(py_str ''1/3'', 2)] \<and>
   reorder [(py_str ''1/3'', 0::nat), (py_str ''2/3'', 1),
        (py_str ''1/3'', 2), (py_str ''3/3'', 3)] ! 0 = 2"
  using reorder_repeated_label [of "py_str ''1/3''"
      "[(py_str ''1/3'', 0::nat), (py_str ''2/3'', 1), (py_str ''1/3'', 2), (py_str ''3/3'', 3)]"]
  by (simp add: py_str_def last_page_def Let_def)

text \<open>
  Claim C2.  The output has as many pages as the input has distinct labels, hence at
  most as many as the input has pairs.
\<close>

theorem reorder_length:
  "length (reorder ps) = card (fst ` set ps) \<and> length (reorder ps) \<le> length ps"
proof -
  have "card (fst ` set ps) = card (set (map fst ps))" by simp
  also have "\<dots> \<le> length (map fst ps)" by (rule card_length)
  finally have "card (fst ` set ps) \<le> length ps" by simp
  then show ?thesis by (simp add: reorder_def page_table_length)
qed

text \<open>
  Claim C8.  The items of the page table are the surviving pages paired with their
  labels; the page table of these items is the same table, and reorder on them returns
  the same pages.
\<close>

theorem reorder_idempotent:
  "page_table (page_table ps) = page_table ps \<and> reorder (page_table ps) = reorder ps"
  by (simp add: reorder_def page_table_fixed page_table_distinct)

section \<open>The label extractor\<close>

lemma splitlines_from_Nil: "splitlines_from cur s = [] \<longleftrightarrow> cur = [] \<and> s = []"
  by (induction cur s rule: splitlines_from.induct) (auto split: list.splits)

lemma splitlines_Nil: "splitlines text = [] \<longleftrightarrow> text = []"
  by (simp add: splitlines_def splitlines_from_Nil)

lemma split_from_hd:
  "split_from sep cur s \<noteq> [] \<and> hd (split_from sep cur s) = cur @ takeWhile (\<lambda>c. c \<noteq> sep) s"
  by (induction sep cur s rule: split_from.induct) auto

lemma py_getitem_last:
  "py_getitem xs (- 1) = (if xs = [] then Inl IndexError else Inr (last xs))"
proof (cases "xs = []")
  case True
  then show ?thesis by (simp add: py_getitem_def)
next
  case False
  then have pos: "0 < length xs" by simp
  then have "nat (int (length xs) + - 1) = length xs - 1" by arith
  with False pos show ?thesis
    by (simp add: py_getitem_def last_conv_nth Suc_le_eq)
qed

lemma py_getitem_first:
  "py_getitem xs 0 = (if xs = [] then Inl IndexError else Inr (hd xs))"
  by (simp add: py_getitem_def hd_conv_nth)

lemma label_of_text_eq:
  "label_of_text text =
     (if text = [] then Inl IndexError
      else Inr (takeWhile (\<lambda>c. c \<noteq> slash) (last (splitlines text))))"
  by (simp add: label_of_text_def py_getitem_last py_getitem_first splitlines_Nil
      split_def split_from_hd)


section \<open>The file organizer\<close>

lemma get_real_page_num_eq:
  "get_real_page_num pdf i =
     (if i < length pdf \<and> pdf ! i \<noteq> []
      then Inr (takeWhile (\<lambda>c. c \<noteq> slash) (last (splitlines (pdf ! i))))
      else Inl IndexError)"
  by (simp add: get_real_page_num_def getPage_def extractText_def label_of_text_eq)

text \<open>The label that the first loop stores for page \<open>i\<close> when the extraction succeeds.\<close>

lemma fill_pages_ok:
  assumes "\<forall>i\<in>set is. i < length pdf \<and> pdf ! i \<noteq> []"
  shows "fill_pages pdf is pages =
     Inr (foldl (\<lambda>pages (page_num, i). od_setitem pages page_num i) pages
       (map (\<lambda>i. (takeWhile (\<lambda>c. c \<noteq> slash) (last (splitlines (pdf ! i))), i)) is))"
  using assms by (induction "is" arbitrary: pages) (simp_all add: get_real_page_num_eq)

lemma fill_pages_raises:
  assumes "i \<in> set is" and "pdf ! i = []"
  shows "fill_pages pdf is pages = Inl IndexError"
  using assms
proof (induction "is" arbitrary: pages)
  case Nil
  then show ?case by simp
next
  case (Cons a rest)
  show ?case
  proof (cases "get_real_page_num pdf a")
    case (Inl e)
    then have "e = IndexError"
      by (simp add: get_real_page_num_eq split: if_splits)
    with Inl show ?thesis by simp
  next
    case (Inr page_num)
    then have "pdf ! a \<noteq> []"
      by (simp add: get_real_page_num_eq split: if_splits)
    with Cons.prems have "i \<in> set rest" by auto
    with Cons.IH Cons.prems(2) Inr show ?thesis by simp
  qed
qed

lemma foldl_od_setitem_values:
  "set (map snd (foldl (\<lambda>pages (page_num, i). od_setitem pages page_num i) pages ps))
     \<subseteq> set (map snd pages) \<union> set (map snd ps)"
proof (induction ps arbitrary: pages)
  case Nil
  show ?case by simp
next
  case (Cons p ps)
  obtain k v where p: "p = (k, v)" by (cases p)
  let ?F = "\<lambda>pages (page_num, i). od_setitem pages page_num i"
  have a: "snd ` set (foldl ?F (od_setitem pages k v) ps)
        \<subseteq> snd ` set (od_setitem pages k v) \<union> snd ` set ps"
    using Cons.IH [of "od_setitem pages k v"] by simp
  have b: "snd ` set (od_setitem pages k v) \<subseteq> insert v (snd ` set pages)"
    using od_setitem_values [of pages k v] by simp
  from a b have "snd ` set (foldl ?F (od_setitem pages k v) ps)
        \<subseteq> snd ` set pages \<union> insert v (snd ` set ps)"
    by blast
  with p show ?case by simp
qed

lemma add_pages_ok:
  assumes "\<forall>i\<in>set (map snd items). i < length pdf"
  shows "add_pages pdf items writer = Inr (writer @ map snd items)"
  using assms
  by (induction pdf items writer rule: add_pages.induct) (simp_all add: getPage_def)

lemma organize_file_ok:
  assumes "[] \<notin> set pdf"
  shows "organize_file pdf =
     (Some (reorder (labelled pdf)),
      if pdf = [] then Inl ZeroDivisionError
      else Inr (length pdf, length (reorder (labelled pdf))))"
proof -
  from assms have all: "\<forall>i\<in>set [0..<length pdf]. i < length pdf \<and> pdf ! i \<noteq> []"
    by (metis atLeastLessThan_iff nth_mem set_upt)
  have fill: "fill_pages pdf [0..<length pdf] [] = Inr (page_table (labelled pdf))"
    using fill_pages_ok [OF all, of "[]"] by (simp add: page_table_def labelled_def)
  have "set (map snd (page_table (labelled pdf))) \<subseteq> set (map snd (labelled pdf))"
    using foldl_od_setitem_values [of "[]" "labelled pdf"] by (simp add: page_table_def)
  also have "\<dots> = {0..<length pdf}"
    by (simp add: labelled_def comp_def)
  finally have "\<forall>i\<in>set (map snd (page_table (labelled pdf))). i < length pdf"
    by auto
  then have "add_pages pdf (page_table (labelled pdf)) [] = Inr ([] @ map snd (page_table (labelled pdf)))"
    by (rule add_pages_ok)
  with fill show ?thesis
    by (simp add: organize_file_def getNumPages_def reorder_def)
qed

lemma organize_file_raises:
  assumes "[] \<in> set pdf"
  shows "organize_file pdf = (None, Inl IndexError)"
proof -
  from assms obtain i where "i < length pdf" and "pdf ! i = []"
    by (metis in_set_conv_nth)
  then have "fill_pages pdf [0..<length pdf] [] = Inl IndexError"
    by (intro fill_pages_raises [of i]) simp_all
  then show ?thesis
    by (simp add: organize_file_def getNumPages_def)
qed


section \<open>Claims about the label extractor and the file organizer\<close>

text \<open>
  Claim C4, as the code has it.  On a page of the document, \<open>get_real_page_num\<close> splits
  the text of the page into lines, takes the last line, empty or not, and returns the
  part of that line before the first \<open>/\<close>, which is the whole line when the line has no
  \<open>/\<close>.  It raises \<open>IndexError\<close> exactly when the text of the page is empty, the only
  text without lines.
\<close>

theorem get_real_page_num_last_line:
  assumes "page_num < length pdf"
  shows "get_real_page_num pdf page_num =
           (if pdf ! page_num = [] then Inl IndexError
            else Inr (takeWhile (\<lambda>c. c \<noteq> slash) (last (splitlines (pdf ! page_num))))) \<and>
         (splitlines (pdf ! page_num) = [] \<longleftrightarrow> pdf ! page_num = []) \<and>
         hd (split (last (splitlines (pdf ! page_num))) slash) =
           takeWhile (\<lambda>c. c \<noteq> slash) (last (splitlines (pdf ! page_num)))"
  using assms by (simp add: get_real_page_num_eq splitlines_Nil split_def split_from_hd)

theorem get_real_page_num_last_line_witness:
  "(0::nat) < length [py_str ''Title'' @ [LF] @ py_str ''3/7''] \<and>
   get_real_page_num [py_str ''Title'' @ [LF] @ py_str ''3/7''] 0 = Inr (py_str ''3'')"
  using get_real_page_num_last_line [of 0 "[py_str ''Title'' @ [LF] @ py_str ''3/7'']"]
  by (simp add: splitlines_def linebreak_def slash_def py_str_def LF_def CR_def)

text \<open>
  Claim C4 as stated fails twice.  The text \<open>abc\<close> has a last line without \<open>/\<close>, and
  the extractor returns that line instead of failing.  The text \<open>1/2\<close> followed by two
  line feeds has the empty line as its last line, and the extractor returns the empty
  label, not the label \<open>1\<close> of the last non-empty line.
\<close>

theorem get_real_page_num_counterexample:
  "slash \<notin> set (last (splitlines (py_str ''abc''))) \<and>
   get_real_page_num [py_str ''abc''] 0 = Inr (py_str ''abc'') \<and>
   splitlines (py_str ''1/2'' @ [LF, LF]) = [py_str ''1/2'', []] \<and>
   get_real_page_num [py_str ''1/2'' @ [LF, LF]] 0 = Inr []"
  by (simp add: get_real_page_num_eq splitlines_def linebreak_def slash_def py_str_def LF_def CR_def)

text \<open>
  Claim C5 fails on the code.  For a document without pages the loops run zero times and
  the empty output file is written, but the final progress line divides by the number of
  pages: \<open>organize_file\<close> ends with \<open>ZeroDivisionError\<close>.
\<close>

theorem organize_file_empty_document:
  "organize_file [] = (Some [], Inl ZeroDivisionError)"
  by (simp add: organize_file_def getNumPages_def)

text \<open>
  Claim C6, as the code has it.  When \<open>get_real_page_num\<close> raises on a page of the
  document, \<open>organize_file\<close> raises the same exception out of its first loop: no label
  is put in its place, no later page is read and no output file is written.
\<close>

theorem organize_file_extraction_raises:
  assumes "page_num < length pdf"
    and "get_real_page_num pdf page_num = Inl e"
  shows "organize_file pdf = (None, Inl e)"
proof -
  from assms have "pdf ! page_num = []" and "e = IndexError"
    by (simp_all add: get_real_page_num_eq split: if_splits)
  with assms(1) have "[] \<in> set pdf"
    by (metis nth_mem)
  then have "organize_file pdf = (None, Inl IndexError)"
    by (rule organize_file_raises)
  with \<open>e = IndexError\<close> show ?thesis by simp
qed

theorem organize_file_extraction_raises_witness:
  "(1::nat) < length [py_str ''1/2'', []] \<and>
   get_real_page_num [py_str ''1/2'', []] 1 = Inl IndexError \<and>
   organize_file [py_str ''1/2'', []] = (None, Inl IndexError)"
proof -
  have h: "get_real_page_num [py_str ''1/2'', []] 1 = Inl IndexError"
    by (simp add: get_real_page_num_eq)
  from organize_file_extraction_raises [of 1 "[py_str ''1/2'', []]" IndexError] h
  show ?thesis by simp
qed

text \<open>
  Claim C6 as stated fails: a document whose second page has no text makes the
  extraction fail on that page, and the whole file is abandoned with \<open>IndexError\<close>,
  although its first page has a well-formed label.
\<close>

theorem organize_file_fallback_counterexample:
  "get_real_page_num [py_str ''1/2'', []] 0 = Inr (py_str ''1'') \<and>
   get_real_page_num [py_str ''1/2'', []] 1 = Inl IndexError \<and>
   organize_file [py_str ''1/2'', []] = (None, Inl IndexError)"
  by (simp add: organize_file_raises get_real_page_num_eq
      splitlines_def linebreak_def slash_def py_str_def)

text \<open>
  Claim C7 fails on the code.  With no regular file whose name ends in \<open>.pdf\<close> the
  logger is built for zero lines and \<open>Pool(0)\<close> raises \<open>ValueError\<close>: the program ends
  with an exception, for an empty directory as for one that holds only other files.
\<close>

theorem main_without_pdf_files:
  "main [] = Inl ValueError \<and>
   main [\<lparr>name = py_str ''notes.txt'', isfile = True, content = []\<rparr>,
         \<lparr>name = py_str ''old.pdf'', isfile = False, content = []\<rparr>] = Inl ValueError"
  by (simp add: main_def Pool_def endswith_def py_str_def)

section \<open>The file organizer on whole documents\<close>

text \<open>The output file never has more pages than the source document.\<close>

lemma organize_file_page_count:
  assumes "fst (organize_file pdf) = Some writer"
  shows "length writer \<le> getNumPages pdf"
proof (cases "[] \<in> set pdf")
  case True
  with assms show ?thesis by (simp add: organize_file_raises)
next
  case False
  with assms have "writer = reorder (labelled pdf)"
    by (simp add: organize_file_ok)
  moreover have "length (reorder (labelled pdf)) = card (set (map fst (labelled pdf)))"
    by (simp add: reorder_def page_table_length)
  moreover have "card (set (map fst (labelled pdf))) \<le> length (map fst (labelled pdf))"
    by (rule card_length)
  ultimately show ?thesis
    by (simp add: labelled_def getNumPages_def)
qed

text \<open>Two documents of four and two pages: the third page replaces the first one under
  the label \<open>1\<close>, and pages out of numeric order stay in the order of the source.\<close>

lemma organize_file_duplicate_page:
  "organize_file [py_str ''1/3'', py_str ''2/3'', py_str ''1/3'', py_str ''3/3''] =
     (Some [2, 1, 3], Inr (4, 3))"
  by (simp add: organize_file_ok labelled_def reorder_def page_table_def upt_conv_Cons
      splitlines_def linebreak_def slash_def py_str_def)

lemma organize_file_unsorted_pages:
  "organize_file [py_str ''2/2'', py_str ''1/2''] = (Some [0, 1], Inr (2, 2))"
  by (simp add: organize_file_ok labelled_def reorder_def page_table_def upt_conv_Cons
      splitlines_def linebreak_def slash_def py_str_def)

section \<open>The order and the keys of the written pages\<close>

text \<open>The output of the reorder operation in closed form: for every distinct label, in
  the order of the first occurrences, the page of its last occurrence.\<close>

lemma reorder_eq: "reorder ps = map (last_page ps) (first_seen (map fst ps))"
  by (simp add: reorder_def page_table_eq comp_def)








text \<open>
  Claim C3.  The output of the reorder operation is, for every distinct label of the
  input in the order of the first occurrences, the page kept for that label; the labels
  stand in the page table in that order, whatever their numeric value.  When the labels
  are distinct the output is the input in its own order.  The labels \<open>2/2\<close>, \<open>1/2\<close>
  give the page labelled \<open>2/2\<close> and then the page labelled \<open>1/2\<close>, for the reorder
  operation and for \<open>organize_file\<close> on a document with these two pages.
\<close>

theorem reorder_insertion_order:
  "reorder ps = map (last_page ps) (first_seen (map fst ps)) \<and>
   map fst (page_table ps) = first_seen (map fst ps) \<and>
   (distinct (map fst ps) \<longrightarrow> reorder ps = map snd ps) \<and>
   reorder [(py_str ''2/2'', p), (py_str ''1/2'', q)] = [p, q] \<and>
   reorder [(py_str ''3/3'', p), (py_str ''1/3'', q), (py_str ''2/3'', r)] = [p, q, r] \<and>
   organize_file [py_str ''2/2'', py_str ''1/2''] = (Some [0, 1], Inr (2, 2))"
proof -
  have "reorder [(py_str ''2/2'', p), (py_str ''1/2'', q)] = [p, q]"
    by (simp add: reorder_def page_table_def py_str_def)
  moreover
  have "reorder [(py_str ''3/3'', p), (py_str ''1/3'', q), (py_str ''2/3'', r)] = [p, q, r]"
    by (simp add: reorder_def page_table_def py_str_def)
  moreover have "distinct (map fst ps) \<longrightarrow> reorder ps = map snd ps"
    by (simp add: reorder_def page_table_fixed)
  ultimately show ?thesis
    by (simp only: reorder_eq [of ps] page_table_keys organize_file_unsorted_pages simp_thms)
qed

theorem reorder_insertion_order_witness:
  "distinct (map fst [(py_str ''3/3'', 0::nat), (py_str ''1/3'', 1), (py_str ''2/3'', 2)]) \<and>
   reorder [(py_str ''3/3'', 0::nat), (py_str ''1/3'', 1), (py_str ''2/3'', 2)] = [0, 1, 2]"
  using reorder_insertion_order
    [of "[(py_str ''3/3'', 0::nat), (py_str ''1/3'', 1), (py_str ''2/3'', 2)]"
      "0::nat" "0::nat" "0::nat"]
  by (simp add: py_str_def last_page_def)



section \<open>The progress reporter on the terminal\<close>

lemma feed_append:
  "feed t (xs @ ys) = (case feed t xs of None \<Rightarrow> None | Some t' \<Rightarrow> feed t' ys)"
  by (induction xs arbitrary: t) (auto split: option.splits)

lemma digits_are_digits: "list_all is_digit (digits n)"
proof (induction n rule: digits.induct)
  case (1 n)
  show ?case
  proof (cases "n < 10")
    case True
    then show ?thesis by (subst digits.simps) (simp add: is_digit_def)
  next
    case False
    with 1 have "list_all is_digit (digits (n div 10))" by simp
    moreover have "n mod 10 \<le> 9" by arith
    ultimately show ?thesis
      using False by (subst digits.simps) (simp add: is_digit_def)
  qed
qed

lemma digits_value: "foldl (\<lambda>a c. 10 * a + (c - 48)) 0 (digits n) = n"
proof (induction n rule: digits.induct)
  case (1 n)
  show ?case
  proof (cases "n < 10")
    case True
    then show ?thesis by (subst digits.simps) simp
  next
    case False
    with 1 have "foldl (\<lambda>a c. 10 * a + (c - 48)) 0 (digits (n div 10)) = n div 10"
      by simp
    with False show ?thesis by (subst digits.simps) simp
  qed
qed

lemma feed_digits:
  assumes "parser t = Csi private a" and "list_all is_digit ds"
  shows "feed t ds = Some (t\<lparr>parser := Csi private (foldl (\<lambda>a c. 10 * a + (c - 48)) a ds)\<rparr>)"
  using assms
proof (induction ds arbitrary: t a)
  case Nil
  then show ?case by (cases t) simp
next
  case (Cons c ds)
  from Cons.prems have c: "is_digit c" and ds: "list_all is_digit ds" by simp_all
  from c have "c \<noteq> 63" by (auto simp: is_digit_def)
  with Cons.prems(1) c
  have step: "step t c = Some (t\<lparr>parser := Csi private (10 * a + (c - 48))\<rparr>)"
    by (simp add: step_def)
  have "parser (t\<lparr>parser := Csi private (10 * a + (c - 48))\<rparr>) = Csi private (10 * a + (c - 48))"
    by simp
  from Cons.IH [OF this ds] step show ?case by simp
qed

text \<open>A control sequence with one numeric parameter, as the logger prints it.\<close>

lemma feed_csi:
  assumes "parser t = Ground" and "\<not> is_digit c" and "c \<noteq> 63"
  shows "feed t ([ESC] @ py_str ''['' @ str_int (int n) @ [c]) = csi_dispatch False n c t"
proof -
  let ?t1 = "t\<lparr>parser := Csi False 0\<rparr>"
  let ?t2 = "t\<lparr>parser := Csi False n\<rparr>"
  have "feed ?t1 (digits n) =
      Some (?t1\<lparr>parser := Csi False (foldl (\<lambda>a c. 10 * a + (c - 48)) 0 (digits n))\<rparr>)"
    by (rule feed_digits) (simp_all add: digits_are_digits)
  then have param: "feed ?t1 (digits n) = Some ?t2"
    by (simp add: digits_value)
  from assms(1) have "?t2\<lparr>parser := Ground\<rparr> = t" by (cases t) simp
  with assms(2,3) have final: "feed ?t2 [c] = csi_dispatch False n c t"
    by (simp add: step_def split: option.splits)
  from assms(1)
  have "feed t ([ESC] @ py_str ''['' @ digits n @ [c]) = feed ?t1 (digits n @ [c])"
    by (simp add: step_def py_str_def)
  also have "\<dots> = feed ?t2 [c]"
    by (simp add: feed_append param)
  also note final
  finally show ?thesis by (simp add: str_int_def)
qed

lemma feed_erase_line:
  assumes "parser t = Ground"
  shows "feed t ([ESC] @ py_str ''[2K'') = Some (t\<lparr>rows := (rows t)[crow t := []]\<rparr>)"
proof -
  from assms have "t\<lparr>parser := Ground\<rparr> = t" by (cases t) simp
  with assms show ?thesis
    by (simp add: step_def csi_dispatch_def is_digit_def ESC_def py_str_def)
qed

text \<open>Graphic characters written from the end of the current line, within the width.\<close>

lemma feed_graphic:
  assumes "parser t = Ground" and "list_all graphic msg"
    and "crow t < length (rows t)" and "length (rows t ! crow t) = ccol t"
    and "ccol t + length msg \<le> width t"
  shows "feed t msg =
     Some (t\<lparr>rows := (rows t)[crow t := rows t ! crow t @ msg], ccol := ccol t + length msg\<rparr>)"
  using assms
proof (induction msg arbitrary: t)
  case Nil
  then show ?case by (cases t) simp
next
  case (Cons c msg)
  let ?t1 = "t\<lparr>rows := (rows t)[crow t := rows t ! crow t @ [c]], ccol := ccol t + 1\<rparr>"
  from Cons.prems(2) have c: "graphic c" and msg: "list_all graphic msg" by simp_all
  from c have "c \<noteq> ESC" and "c \<noteq> LF" by (auto simp: graphic_def ESC_def LF_def)
  moreover from Cons.prems(5) have "\<not> width t \<le> ccol t" by simp
  ultimately have step: "step t c = Some ?t1"
    using Cons.prems(1,4) c by (simp add: step_def put_char_def put_at_def)
  have "feed ?t1 msg =
     Some (?t1\<lparr>rows := (rows ?t1)[crow ?t1 := rows ?t1 ! crow ?t1 @ msg],
        ccol := ccol ?t1 + length msg\<rparr>)"
    using Cons.prems msg by (intro Cons.IH) simp_all
  with step Cons.prems(3) show ?case by simp
qed


text \<open>
  Claim C9, as the code has it.  Let the cursor stand in the first column of a line of
  the screen with the \<open>num\<close> reserved lines above it, and let the message consist of
  graphic characters that fit in the width of the terminal.  Then for \<open>line < num\<close> the
  characters printed by \<open>Logger.log\<close> replace line \<open>line\<close> of the block, counted from the
  top, by the message and change nothing else: the other lines, the cursor position
  and the cursor visibility are as before.
\<close>

theorem Logger_log_rewrites_line:
  assumes "parser t = Ground" and "ccol t = 0"
    and "crow t < length (rows t)" and "num \<le> crow t"
    and "line < num"
    and "list_all graphic msg" and "length msg \<le> width t"
  shows "feed t (Logger_log (int num) (int line) msg) =
           Some (t\<lparr>rows := (rows t)[crow t - num + line := msg]\<rparr>)"
proof -
  define k where "k = num - line"
  define r where "r = crow t - k"
  let ?t1 = "t\<lparr>crow := r, ccol := 0\<rparr>"
  let ?t2 = "?t1\<lparr>rows := (rows t)[r := []]\<rparr>"
  let ?t3 = "?t2\<lparr>rows := (rows t)[r := msg], ccol := length msg\<rparr>"
  define up where "up = [ESC] @ py_str ''['' @ str_int (int k) @ py_str ''F''"
  define erase where "erase = [ESC] @ py_str ''[2K''"
  define down where "down = [ESC] @ py_str ''['' @ str_int (int k) @ py_str ''E''"
  from assms(4,5) have k: "1 \<le> k" "k \<le> crow t" and r: "r + k = crow t" "r = crow t - num + line"
    by (simp_all add: k_def r_def)
  from r(1) assms(3) have r_less: "r < length (rows t)" by simp
  have out: "Logger_log (int num) (int line) msg = up @ erase @ msg @ down"
    using assms(5) by (simp add: Logger_log_def k_def Let_def of_nat_diff up_def erase_def down_def)
  have "feed t up = csi_dispatch False k 70 t"
    using feed_csi [OF assms(1), of 70 k] by (simp add: is_digit_def py_str_def up_def)
  with k have up: "feed t up = Some ?t1"
    by (simp add: csi_dispatch_def r_def max_def)
  have "feed ?t1 erase = Some (?t1\<lparr>rows := (rows ?t1)[crow ?t1 := []]\<rparr>)"
    unfolding erase_def using assms(1) by (intro feed_erase_line) simp
  then have erase: "feed ?t1 erase = Some ?t2" by simp
  have "feed ?t2 msg =
      Some (?t2\<lparr>rows := (rows ?t2)[crow ?t2 := rows ?t2 ! crow ?t2 @ msg],
         ccol := ccol ?t2 + length msg\<rparr>)"
    using assms(1,6,7) r_less by (intro feed_graphic) simp_all
  with r_less have body: "feed ?t2 msg = Some ?t3" by simp
  have "feed ?t3 down = csi_dispatch False k 69 ?t3"
    using assms(1) feed_csi [of ?t3 69 k] by (simp add: is_digit_def py_str_def down_def)
  also from k r(1) assms(3) have "\<dots> = Some (?t3\<lparr>crow := crow t, ccol := 0\<rparr>)"
    by (simp add: csi_dispatch_def max_def min_def)
  also from assms(2) r(2) have "?t3\<lparr>crow := crow t, ccol := 0\<rparr> =
      t\<lparr>rows := (rows t)[crow t - num + line := msg]\<rparr>"
    by (cases t) simp
  finally have down: "feed ?t3 down = Some (t\<lparr>rows := (rows t)[crow t - num + line := msg]\<rparr>)" .
  have "feed t (up @ erase @ msg @ down) =
      Some (t\<lparr>rows := (rows t)[crow t - num + line := msg]\<rparr>)"
    by (simp only: feed_append up erase body down option.case)
  with out show ?thesis by simp
qed


theorem Logger_log_rewrites_line_witness:
  "(1::nat) < 2 \<and> list_all graphic (py_str ''ok'') \<and> length (py_str ''ok'') \<le> 80 \<and>
   feed \<lparr>width = 80, rows = [py_str ''x'', py_str ''y'', [], []], crow = 2, ccol = 0,
          shown = False, parser = Ground\<rparr>
        (Logger_log 2 1 (py_str ''ok'')) =
     Some \<lparr>width = 80, rows = [py_str ''x'', py_str ''ok'', [], []], crow = 2, ccol = 0,
          shown = False, parser = Ground\<rparr>"
  using Logger_log_rewrites_line [of
      "\<lparr>width = 80, rows = [py_str ''x'', py_str ''y'', [], []], crow = 2, ccol = 0,
        shown = False, parser = Ground\<rparr>" 2 1 "py_str ''ok''"]
  by (simp add: graphic_def py_str_def)

text \<open>
  Claim C9 as stated fails for a message with a line feed, such as the name of a file
  may contain.  With two reserved lines showing \<open>x\<close> and \<open>y\<close> and the cursor below
  them, logging \<open>a\<close>, line feed, \<open>b\<close> to line 0 also overwrites line 1, and the cursor
  ends one line lower than it was.
\<close>

theorem Logger_log_counterexample:
  "feed \<lparr>width = 80, rows = [py_str ''x'', py_str ''y'', [], []], crow = 2, ccol = 0,
          shown = False, parser = Ground\<rparr>
        (Logger_log 2 0 (py_str ''a'' @ [LF] @ py_str ''b'')) =
     Some \<lparr>width = 80, rows = [py_str ''a'', py_str ''b'', [], []], crow = 3, ccol = 0,
          shown = False, parser = Ground\<rparr>"
  by (simp add: Logger_log_def str_int_def digits.simps step_def csi_dispatch_def
      put_char_def put_at_def newline_def is_digit_def graphic_def
      py_str_def ESC_def LF_def)

text \<open>The constructor leaves the terminal as the theorem needs it: on a screen with room
  below the cursor, \<open>Logger(2)\<close> moves the cursor two lines down, to the first column,
  and hides it.\<close>

lemma Logger_init_example:
  "feed \<lparr>width = 80, rows = [py_str ''$ run'', [], [], []], crow = 1, ccol = 0,
          shown = True, parser = Ground\<rparr>
        (Logger_init 2) =
     Some \<lparr>width = 80, rows = [py_str ''$ run'', [], [], []], crow = 3, ccol = 0,
          shown = False, parser = Ground\<rparr>"
  by (simp add: Logger_init_def step_def csi_dispatch_def newline_def is_digit_def
      py_str_def ESC_def LF_def numeral_2_eq_2)

end
